theory Spec2Isabelle
  imports Complex_Main
begin

section \<open>Python values, dictionaries and exceptions\<close>

text \<open>
  The values a secret can hold: what \<^verbatim>\<open>json.loads\<close> produces, plus an instance of the
  class \<^verbatim>\<open>Null\<close> of \<^verbatim>\<open>secrets_manager.py\<close> (the module-level \<^verbatim>\<open>null\<close>), which is
  the default of the parameter \<^verbatim>\<open>default\<close>. The source tells instances of \<^verbatim>\<open>Null\<close>
  apart from other values with \<^verbatim>\<open>isinstance\<close> only, so one constructor stands for all of
  them. A float is represented by the decimal value it denotes; rounding to binary64 is not
  part of the model. Keys are strings.
\<close>

datatype pyval =
    PNone
  | PBool bool
  | PInt int
  | PFloat rat
  | PStr string
  | PList "pyval list"
  | PDict "(string \<times> pyval) list"
  | PNull

text \<open>
  A Python \<^verbatim>\<open>dict\<close> keeps insertion order: an association list in which
  \<^verbatim>\<open>d[k] = v\<close> overwrites the entry of an existing key in place and appends a new key.
\<close>

type_synonym pydict = "(string \<times> pyval) list"

fun dict_setitem :: "('k \<times> 'v) list \<Rightarrow> 'k \<Rightarrow> 'v \<Rightarrow> ('k \<times> 'v) list" where
  "dict_setitem [] k v = [(k, v)]"
| "dict_setitem ((k', v') # d) k v =
     (if k' = k then (k, v) # d else (k', v') # dict_setitem d k v)"

definition dict_getitem :: "('k \<times> 'v) list \<Rightarrow> 'k \<Rightarrow> 'v option" where
  "dict_getitem d k = map_of d k"

text \<open>\<^verbatim>\<open>d.update(other)\<close> for a dict \<^verbatim>\<open>other\<close>: its items are stored one by one, in order.\<close>

fun dict_update :: "('k \<times> 'v) list \<Rightarrow> ('k \<times> 'v) list \<Rightarrow> ('k \<times> 'v) list" where
  "dict_update d [] = d"
| "dict_update d ((k, v) # kvs) = dict_update (dict_setitem d k v) kvs"

text \<open>
  The exceptions the module can raise or let through. \<^verbatim>\<open>KeyError\<close> carries its argument:
  the missing key for a failed subscript, the message for the one raised by \<^verbatim>\<open>get\<close>.
  \<^verbatim>\<open>ClientError\<close> carries \<^verbatim>\<open>e.response['Error']['Code']\<close>;
  \<^verbatim>\<open>SecretsManagerException.from_code(code)\<close> is kept symbolic in the code.
\<close>

datatype exn =
    KeyError string
  | CastError
  | ClientError string
  | SecretsManagerException string
  | OtherError string

section \<open>Text of a key: \<^verbatim>\<open>repr\<close> of a \<^verbatim>\<open>str\<close>\<close>

text \<open>
  \<^verbatim>\<open>repr\<close> of a string whose code points are below 256: double quotes when the string
  holds a single quote and no double quote, single quotes otherwise; backslash and the
  chosen quote are escaped, tab, newline and carriage return are written \<^verbatim>\<open>\t \n \r\<close>, any
  other non-printable code point as \<^verbatim>\<open>\xhh\<close>.
\<close>

definition hex_digit :: "nat \<Rightarrow> char" where
  "hex_digit n = ''0123456789abcdef'' ! (n mod 16)"

definition is_printable :: "char \<Rightarrow> bool" where
  "is_printable c =
     (let n = (of_char c :: nat)
      in (32 \<le> n \<and> n < 127) \<or> (161 \<le> n \<and> n \<noteq> 173))"

definition repr_char :: "char \<Rightarrow> char \<Rightarrow> string" where
  "repr_char q c =
     (if c = q \<or> c = CHR 0x5C then [CHR 0x5C, c]
      else if c = CHR 0x09 then [CHR 0x5C, CHR ''t'']
      else if c = CHR 0x0A then [CHR 0x5C, CHR ''n'']
      else if c = CHR 0x0D then [CHR 0x5C, CHR ''r'']
      else if \<not> is_printable c then
        [CHR 0x5C, CHR ''x'', hex_digit ((of_char c :: nat) div 16), hex_digit (of_char c)]
      else [c])"

definition py_repr :: "string \<Rightarrow> string" where
  "py_repr s =
     (let q = (if CHR 0x27 \<in> set s \<and> CHR 0x22 \<notin> set s then CHR 0x22 else CHR 0x27)
      in [q] @ concat (map (repr_char q) s) @ [q])"

section \<open>Casting\<close>

datatype shape = TextShape | IntegerShape | FloatShape | BooleanShape | PassThrough

definition to_lower :: "char \<Rightarrow> char" where
  "to_lower c =
     (let n = (of_char c :: nat) in if 65 \<le> n \<and> n \<le> 90 then char_of (n + 32) else c)"

definition digit_val :: "char \<Rightarrow> nat option" where
  "digit_val c =
     (let n = (of_char c :: nat) in if 48 \<le> n \<and> n \<le> 57 then Some (n - 48) else None)"

fun parse_digits :: "nat \<Rightarrow> string \<Rightarrow> nat option" where
  "parse_digits acc [] = Some acc"
| "parse_digits acc (c # cs) =
     (case digit_val c of None \<Rightarrow> None | Some d \<Rightarrow> parse_digits (10 * acc + d) cs)"

definition parse_nat :: "string \<Rightarrow> nat option" where
  "parse_nat s = (if s = [] then None else parse_digits 0 s)"

definition parse_int :: "string \<Rightarrow> int option" where
  "parse_int s =
     (case s of
        [] \<Rightarrow> None
      | c # cs \<Rightarrow>
          if c = CHR ''-'' then map_option (\<lambda>n. - int n) (parse_nat cs)
          else if c = CHR ''+'' then map_option int (parse_nat cs)
          else map_option int (parse_nat s))"

definition parse_unsigned_decimal :: "string \<Rightarrow> rat option" where
  "parse_unsigned_decimal s =
     (let ip = takeWhile (\<lambda>c. c \<noteq> CHR ''.'') s;
          rest = dropWhile (\<lambda>c. c \<noteq> CHR ''.'') s
      in case rest of
           [] \<Rightarrow> map_option of_nat (parse_nat ip)
         | _ # fp \<Rightarrow>
             (case (parse_nat ip, parse_nat fp) of
                (Some i, Some f) \<Rightarrow> Some (of_nat i + of_nat f / of_nat (10 ^ length fp))
              | _ \<Rightarrow> None))"

definition parse_decimal :: "string \<Rightarrow> rat option" where
  "parse_decimal s =
     (case s of
        [] \<Rightarrow> None
      | c # cs \<Rightarrow>
          if c = CHR ''-'' then map_option uminus (parse_unsigned_decimal cs)
          else if c = CHR ''+'' then parse_unsigned_decimal cs
          else parse_unsigned_decimal s)"

definition cast_bool_text :: "string \<Rightarrow> exn + pyval" where
  "cast_bool_text s =
     (let t = map to_lower s
      in if t = ''true'' \<or> t = ''1'' \<or> t = ''yes'' then Inr (PBool True)
         else if t = ''false'' \<or> t = ''0'' \<or> t = ''no'' then Inr (PBool False)
         else Inl CastError)"

fun show_nat :: "nat \<Rightarrow> string" where
  "show_nat n =
     (if n < 10 then [char_of (48 + n)] else show_nat (n div 10) @ [char_of (48 + n mod 10)])"

definition show_int :: "int \<Rightarrow> string" where
  "show_int i = (if i < 0 then CHR ''-'' # show_nat (nat (- i)) else show_nat (nat i))"

text \<open>
  Modelled from the spec: the function \<^verbatim>\<open>cast\<close> of \<^verbatim>\<open>aws_chain_secrets/caster.py\<close>,
  which \<^verbatim>\<open>secrets_manager.py\<close> imports and which is not among the sources. The target is
  one of text, integer, floating-point, boolean or pass-through (identity). Boolean casting
  of text recognises, without regard to case, \<^verbatim>\<open>true/false\<close>, \<^verbatim>\<open>1/0\<close> and
  \<^verbatim>\<open>yes/no\<close> and fails with \<^verbatim>\<open>CastError\<close> on any other text. Numeric casting accepts
  a number or numeric-looking text (an optional sign and decimal digits; for floating-point
  also a fractional part) and fails with \<^verbatim>\<open>CastError\<close> otherwise. A list or mapping is
  cast by pass-through only. Where the spec is silent the model follows the Python
  constructors \<^verbatim>\<open>str\<close>, \<^verbatim>\<open>int\<close> and \<^verbatim>\<open>float\<close> on integers, booleans and
  \<^verbatim>\<open>None\<close>, and fails with \<^verbatim>\<open>CastError\<close> on the rest.
\<close>

fun cast :: "pyval \<Rightarrow> shape \<Rightarrow> exn + pyval" where
  "cast v PassThrough = Inr v"
| "cast (PStr s) TextShape = Inr (PStr s)"
| "cast (PInt i) TextShape = Inr (PStr (show_int i))"
| "cast (PBool b) TextShape = Inr (PStr (if b then ''True'' else ''False''))"
| "cast PNone TextShape = Inr (PStr ''None'')"
| "cast v TextShape = Inl CastError"
| "cast (PStr s) IntegerShape =
     (case parse_int s of None \<Rightarrow> Inl CastError | Some i \<Rightarrow> Inr (PInt i))"
| "cast (PInt i) IntegerShape = Inr (PInt i)"
| "cast (PFloat r) IntegerShape =
     Inr (PInt (if r < 0 then - \<lfloor>- r\<rfloor> else \<lfloor>r\<rfloor>))"
| "cast v IntegerShape = Inl CastError"
| "cast (PStr s) FloatShape =
     (case parse_decimal s of None \<Rightarrow> Inl CastError | Some r \<Rightarrow> Inr (PFloat r))"
| "cast (PInt i) FloatShape = Inr (PFloat (of_int i))"
| "cast (PFloat r) FloatShape = Inr (PFloat r)"
| "cast v FloatShape = Inl CastError"
| "cast (PStr s) BooleanShape = cast_bool_text s"
| "cast (PBool b) BooleanShape = Inr (PBool b)"
| "cast v BooleanShape = Inl CastError"

section \<open>The manager object\<close>

text \<open>
  The dictionaries of the bundles are objects shared by \<^verbatim>\<open>self._secrets\<close> and by the
  \<^verbatim>\<open>ChainMap\<close> \<^verbatim>\<open>self._combined\<close>; they live in a store (\<open>heap\<close>), and both fields
  hold addresses into it.
\<close>

record manager =
  secret_names :: "string list"
  secrets :: "(string \<times> nat) list"
  combined :: "nat list"
  heap :: "pydict list"

text \<open>
  \<^verbatim>\<open>{secret_name: {} for secret_name in secret_names}\<close>: every iteration creates a new empty
  dict (address \<open>a\<close>) and stores it under the name; a repeated name keeps its first position
  among the keys and gets the newest object.
\<close>

fun init_secrets :: "string list \<Rightarrow> nat \<Rightarrow> (string \<times> nat) list \<Rightarrow> (string \<times> nat) list" where
  "init_secrets [] a d = d"
| "init_secrets (n # ns) a d = init_secrets ns (Suc a) (dict_setitem d n a)"

text \<open>
  \<^verbatim>\<open>ChainMap(*reversed(self._secrets.values()))\<close>; a \<^verbatim>\<open>ChainMap\<close> built from no mapping
  holds one new empty dict.
\<close>

definition init :: "string list \<Rightarrow> manager" where
  "init names =
     (let secs = init_secrets names 0 [];
          h = replicate (length names) [];
          maps = rev (map snd secs)
      in if maps = []
         then \<lparr>secret_names = names, secrets = secs, combined = [length h], heap = h @ [[]]\<rparr>
         else \<lparr>secret_names = names, secrets = secs, combined = maps, heap = h\<rparr>)"

text \<open>\<^verbatim>\<open>ChainMap.__getitem__\<close>: the first mapping of \<^verbatim>\<open>maps\<close> that has the key answers.\<close>

fun chain_getitem :: "pydict list \<Rightarrow> nat list \<Rightarrow> string \<Rightarrow> pyval option" where
  "chain_getitem h [] key = None"
| "chain_getitem h (a # as) key =
     (case dict_getitem (h ! a) key of
        Some v \<Rightarrow> Some v
      | None \<Rightarrow> chain_getitem h as key)"

definition not_found_msg :: "string \<Rightarrow> string" where
  "not_found_msg key =
     py_repr key @ '' not found. Please check secret value in AWS Secrets Manager.''"

definition get :: "manager \<Rightarrow> string \<Rightarrow> pyval \<Rightarrow> shape \<Rightarrow> exn + pyval" where
  "get s key dflt casting_type =
     (case chain_getitem (heap s) (combined s) key of
        None \<Rightarrow> if dflt = PNull then Inl (KeyError (not_found_msg key)) else Inr dflt
      | Some v \<Rightarrow> cast v casting_type)"

text \<open>
  \<^verbatim>\<open>self._secrets[secret_name][key] = value\<close>: a name that is no key of
  \<^verbatim>\<open>self._secrets\<close> raises \<^verbatim>\<open>KeyError(secret_name)\<close>. The result is the exception, if
  any, and the object afterwards.
\<close>

definition set_secret :: "manager \<Rightarrow> string \<Rightarrow> string \<Rightarrow> pyval \<Rightarrow> exn option \<times> manager" where
  "set_secret s secret_name key v =
     (case dict_getitem (secrets s) secret_name of
        None \<Rightarrow> (Some (KeyError secret_name), s)
      | Some a \<Rightarrow> (None, s\<lparr>heap := (heap s)[a := dict_setitem (heap s ! a) key v]\<rparr>))"

section \<open>The remote store\<close>

text \<open>
  Modelled from the spec: the base class \<^verbatim>\<open>Client\<close> of \<^verbatim>\<open>aws_chain_secrets/client.py\<close>,
  which provides \<^verbatim>\<open>self._client\<close> and is not among the sources. It is the SecretStore
  capability of the spec: \<^verbatim>\<open>get_secret_value\<close> answers a name with a response or fails,
  with a store error code (\<^verbatim>\<open>ClientError\<close>) or otherwise; \<^verbatim>\<open>update_secret\<close> is handed a
  name and a payload and succeeds or fails. The library functions \<^verbatim>\<open>json.loads\<close>,
  \<^verbatim>\<open>json.dumps\<close> and \<^verbatim>\<open>base64.b64decode\<close> are parameters as well; \<^verbatim>\<open>_get_secrets\<close>
  is declared to return a \<^verbatim>\<open>dict\<close>, so \<^verbatim>\<open>json.loads\<close> yields a dictionary or raises.
\<close>

record response =
  SecretString :: "string option"
  SecretBinary :: "string option"

record env =
  get_secret_value :: "string \<Rightarrow> exn + response"
  update_secret :: "string \<Rightarrow> string \<Rightarrow> exn option"
  json_loads :: "string \<Rightarrow> exn + pydict"
  json_dumps :: "pydict \<Rightarrow> exn + string"
  b64decode :: "string \<Rightarrow> exn + string"

text \<open>A call of \<^verbatim>\<open>update_secret(SecretId=..., SecretString=...)\<close> made on the client.\<close>

datatype request = UpdateSecret string string

definition get_secrets :: "env \<Rightarrow> string \<Rightarrow> exn + pydict" where
  "get_secrets e secret_name =
     (case get_secret_value e secret_name of
        Inl (ClientError code) \<Rightarrow> Inl (SecretsManagerException code)
      | Inl x \<Rightarrow> Inl x
      | Inr resp \<Rightarrow>
          (case SecretString resp of
             Some str \<Rightarrow> json_loads e str
           | None \<Rightarrow>
               (case SecretBinary resp of
                  None \<Rightarrow> Inl (KeyError ''SecretBinary'')
                | Some b \<Rightarrow>
                    (case b64decode e b of
                       Inl x \<Rightarrow> Inl x
                     | Inr raw \<Rightarrow> json_loads e raw))))"

text \<open>
  The loop of \<^verbatim>\<open>fetch\<close> over \<^verbatim>\<open>self.secret_names\<close>: the dict of the name is cleared,
  then \<^verbatim>\<open>_get_secrets\<close> runs, then the dict is updated with its result. An exception
  ends the loop and leaves the object as it is at that moment.
\<close>

fun fetch_loop :: "env \<Rightarrow> string list \<Rightarrow> manager \<Rightarrow> exn option \<times> manager" where
  "fetch_loop e [] s = (None, s)"
| "fetch_loop e (n # ns) s =
     (case dict_getitem (secrets s) n of
        None \<Rightarrow> (Some (KeyError n), s)
      | Some a \<Rightarrow>
          (let s1 = s\<lparr>heap := (heap s)[a := []]\<rparr>
           in case get_secrets e n of
                Inl x \<Rightarrow> (Some x, s1)
              | Inr kvs \<Rightarrow>
                  fetch_loop e ns (s1\<lparr>heap := (heap s1)[a := dict_update (heap s1 ! a) kvs]\<rparr>)))"

definition fetch :: "env \<Rightarrow> manager \<Rightarrow> exn option \<times> manager" where
  "fetch e s = fetch_loop e (secret_names s) s"

text \<open>
  \<^verbatim>\<open>update\<close>: the arguments are evaluated (\<^verbatim>\<open>self._secrets[secret_name]\<close>, then
  \<^verbatim>\<open>json.dumps\<close>), then the client is called. The result is the exception, if any, the
  calls made on the client, and the object afterwards.
\<close>

definition update :: "env \<Rightarrow> manager \<Rightarrow> string \<Rightarrow> exn option \<times> request list \<times> manager" where
  "update e s secret_name =
     (case dict_getitem (secrets s) secret_name of
        None \<Rightarrow> (Some (KeyError secret_name), [], s)
      | Some a \<Rightarrow>
          (case json_dumps e (heap s ! a) of
             Inl x \<Rightarrow> (Some x, [], s)
           | Inr payload \<Rightarrow>
               (update_secret e secret_name payload, [UpdateSecret secret_name payload], s)))"

section \<open>Bundles, the merged view and the invariant of the object\<close>

text \<open>The dictionary of a bundle name, if the name is a key of \<^verbatim>\<open>self._secrets\<close>.\<close>

definition bundle_of :: "manager \<Rightarrow> string \<Rightarrow> pydict option" where
  "bundle_of s n = map_option (\<lambda>a. heap s ! a) (dict_getitem (secrets s) n)"

definition has_key :: "manager \<Rightarrow> string \<Rightarrow> string \<Rightarrow> bool" where
  "has_key s key n =
     (case bundle_of s n of None \<Rightarrow> False | Some b \<Rightarrow> dict_getitem b key \<noteq> None)"

text \<open>The keys of the dict built from a sequence of names: each name once, at its first position.\<close>

fun key_order :: "'a list \<Rightarrow> 'a list" where
  "key_order [] = []"
| "key_order (x # xs) = x # filter (\<lambda>y. y \<noteq> x) (key_order xs)"

text \<open>
  What \<^verbatim>\<open>__init__\<close> establishes and every method keeps: the keys of \<^verbatim>\<open>self._secrets\<close>
  are the declared names in order of first occurrence, every name has a dictionary of its
  own in the store, and the \<^verbatim>\<open>ChainMap\<close> lists these dictionaries in reverse (or, with no
  name declared, one empty dictionary of its own).
\<close>

definition wf :: "manager \<Rightarrow> bool" where
  "wf s \<longleftrightarrow>
     map fst (secrets s) = key_order (secret_names s) \<and>
     distinct (map snd (secrets s)) \<and>
     list_all (\<lambda>a. a < length (heap s)) (map snd (secrets s)) \<and>
     (if secrets s = []
      then length (combined s) = 1 \<and> list_all (\<lambda>a. a < length (heap s) \<and> heap s ! a = []) (combined s)
      else combined s = rev (map snd (secrets s)))"

text \<open>
  The precedence of the code: among the names whose bundle holds the key, the one that comes
  last in the order of first occurrence.
\<close>

definition winner :: "manager \<Rightarrow> string \<Rightarrow> string option" where
  "winner s key =
     (case filter (has_key s key) (key_order (secret_names s)) of
        [] \<Rightarrow> None
      | ns \<Rightarrow> Some (last ns))"


text \<open>\<^verbatim>\<open>key in self._combined\<close>: some mapping of the \<^verbatim>\<open>ChainMap\<close> has the key.\<close>

definition in_merged_view :: "manager \<Rightarrow> string \<Rightarrow> bool" where
  "in_merged_view s key = list_ex (\<lambda>a. dict_getitem (heap s ! a) key \<noteq> None) (combined s)"

section \<open>Example objects\<close>

text \<open>
  The scenario of the specification: bundles \<^verbatim>\<open>base\<close> and \<^verbatim>\<open>override\<close>, with
  \<^verbatim>\<open>base = {"a": 1, "b": 2}\<close> and \<^verbatim>\<open>override = {"b": 3}\<close> written with \<^verbatim>\<open>set\<close>.
\<close>

definition demo_manager :: manager where
  "demo_manager =
     (let s0 = init [''base'', ''override''];
          s1 = snd (set_secret s0 ''base'' ''a'' (PInt 1));
          s2 = snd (set_secret s1 ''base'' ''b'' (PInt 2))
      in snd (set_secret s2 ''override'' ''b'' (PInt 3)))"


text \<open>
  A store for the examples: \<^verbatim>\<open>base\<close> is kept as text, \<^verbatim>\<open>override\<close> as base64 of its
  JSON text, any other name is unknown to the store. The library functions are given on the
  payloads that occur.
\<close>

definition demo_env :: env where
  \<open>demo_env =
     \<lparr>get_secret_value = (\<lambda>n.
         if n = ''base'' then Inr \<lparr>SecretString = Some ''{"a": 1}'', SecretBinary = None\<rparr>
         else if n = ''override'' then Inr \<lparr>SecretString = None, SecretBinary = Some ''eyJiIjogM30=''\<rparr>
         else Inl (ClientError ''ResourceNotFoundException'')),
      update_secret = (\<lambda>n payload. None),
      json_loads = (\<lambda>str.
         if str = ''{"a": 1}'' then Inr [(''a'', PInt 1)]
         else if str = ''{"b": 3}'' then Inr [(''b'', PInt 3)]
         else Inl (OtherError ''JSONDecodeError'')),
      json_dumps = (\<lambda>d.
         if d = [(''a'', PInt 1), (''b'', PInt 2)] then Inr ''{"a": 1, "b": 2}''
         else if d = [(''b'', PInt 3)] then Inr ''{"b": 3}''
         else Inl (OtherError ''TypeError'')),
      b64decode = (\<lambda>b.
         if b = ''eyJiIjogM30='' then Inr ''{"b": 3}''
         else Inl (OtherError ''binascii.Error''))\<rparr>\<close>


text \<open>What the example store holds under a name, decoded.\<close>

definition demo_remote :: "string \<Rightarrow> pydict" where
  "demo_remote n = (if n = ''base'' then [(''a'', PInt 1)] else [(''b'', PInt 3)])"


definition demo_payload :: string where
  \<open>demo_payload = ''{"a": 1, "b": 2}''\<close>

section \<open>Dictionaries and construction\<close>

lemma dict_getitem_setitem:
  "dict_getitem (dict_setitem d k v) k' = (if k' = k then Some v else dict_getitem d k')"
  by (induction d) (auto simp: dict_getitem_def)

lemma keys_setitem:
  "map fst (dict_setitem d k v) = (if k \<in> set (map fst d) then map fst d else map fst d @ [k])"
  by (induction d) (fastforce split: if_splits)+

lemma vals_setitem_subset: "snd ` set (dict_setitem d k v) \<subseteq> insert v (snd ` set d)"
proof (induction d)
  case Nil
  then show ?case by simp
next
  case (Cons p d)
  obtain k' v' where p: "p = (k', v')" by (cases p)
  from Cons p show ?case by (cases "k' = k") auto
qed

lemma vals_setitem_distinct:
  "distinct (map snd d) \<Longrightarrow> v \<notin> snd ` set d \<Longrightarrow> distinct (map snd (dict_setitem d k v))"
proof (induction d)
  case Nil
  then show ?case by simp
next
  case (Cons p d)
  obtain k' v' where p: "p = (k', v')" by (cases p)
  have sub: "snd ` set (dict_setitem d k v) \<subseteq> insert v (snd ` set d)"
    by (rule vals_setitem_subset)
  from Cons p sub show ?case by (auto simp: image_iff)
qed

lemma key_order_set: "set (key_order xs) = set xs"
  by (induction xs) auto

lemma key_order_distinct: "distinct (key_order xs)"
  by (induction xs) (auto simp: key_order_set)


lemma init_secrets_keys:
  "map fst (init_secrets ns a d) =
     map fst d @ filter (\<lambda>n. n \<notin> set (map fst d)) (key_order ns)"
proof (induction ns arbitrary: a d)
  case Nil
  then show ?case by simp
next
  case (Cons n ns)
  show ?case
  proof (cases "n \<in> set (map fst d)")
    case True
    have "filter (\<lambda>m. m \<notin> set (map fst d)) (filter (\<lambda>y. y \<noteq> n) (key_order ns))
            = filter (\<lambda>m. m \<notin> set (map fst d)) (key_order ns)"
      using True by (auto intro: filter_cong)
    moreover have "map fst (dict_setitem d n a) = map fst d"
      using True by (simp only: keys_setitem if_True)
    ultimately show ?thesis
      using True by (simp add: Cons.IH)
  next
    case False
    have "map fst (dict_setitem d n a) = map fst d @ [n]"
      using False by (simp only: keys_setitem if_False)
    moreover have "filter (\<lambda>m. m \<notin> set (map fst d @ [n])) (key_order ns)
       = filter (\<lambda>m. m \<notin> set (map fst d)) (filter (\<lambda>y. y \<noteq> n) (key_order ns))"
      by (auto intro: filter_cong)
    ultimately show ?thesis
      using False by (simp add: Cons.IH)
  qed
qed

lemma init_secrets_vals:
  "distinct (map snd d) \<Longrightarrow> (\<forall>x\<in>snd ` set d. x < a) \<Longrightarrow>
     distinct (map snd (init_secrets ns a d)) \<and>
     (\<forall>x\<in>snd ` set (init_secrets ns a d). x < a + length ns)"
proof (induction ns arbitrary: a d)
  case Nil
  then show ?case by simp
next
  case (Cons n ns)
  have notin: "a \<notin> snd ` set d" using Cons.prems(2) by auto
  have d1: "distinct (map snd (dict_setitem d n a))"
    using Cons.prems(1) notin by (rule vals_setitem_distinct)
  have b1: "\<forall>x\<in>snd ` set (dict_setitem d n a). x < Suc a"
    using vals_setitem_subset[of d n a] Cons.prems(2) by fastforce
  from Cons.IH[OF d1 b1] show ?case by simp
qed

lemma wf_init: "wf (init names)"
proof -
  let ?secs = "init_secrets names 0 []"
  have k: "map fst ?secs = key_order names"
    using init_secrets_keys[of names 0 "[]"] by simp
  have v: "distinct (map snd ?secs) \<and> (\<forall>x\<in>snd ` set ?secs. x < length names)"
    using init_secrets_vals[of "[]" 0 names] by simp
  show ?thesis
  proof (cases "?secs = []")
    case True
    then show ?thesis using k
      by (simp add: wf_def init_def Let_def nth_append)
  next
    case False
    then show ?thesis using k v
      by (simp add: wf_def init_def Let_def list_all_iff)
  qed
qed


lemma chain_getitem_None_iff:
  "chain_getitem h as key = None \<longleftrightarrow> (\<forall>a\<in>set as. dict_getitem (h ! a) key = None)"
  by (induction as) (auto split: option.splits)

section \<open>Lookup through the chain\<close>

lemma chain_getitem_rev:
  "chain_getitem h (rev (map snd secs)) key =
     (let ps = filter (\<lambda>p. dict_getitem (h ! snd p) key \<noteq> None) secs
      in if ps = [] then None else dict_getitem (h ! snd (last ps)) key)"
proof (induction secs rule: rev_induct)
  case Nil
  then show ?case by simp
next
  case (snoc x xs)
  show ?case
  proof (cases "dict_getitem (h ! snd x) key")
    case None
    then show ?thesis using snoc by (simp add: Let_def)
  next
    case (Some v)
    then show ?thesis by (simp add: Let_def)
  qed
qed

lemma dict_getitem_distinct:
  "distinct (map fst secs) \<Longrightarrow> (n, a) \<in> set secs \<Longrightarrow> dict_getitem secs n = Some a"
  by (simp add: dict_getitem_def)

lemma filter_has_key:
  assumes "distinct (map fst (secrets s))"
  shows "filter (has_key s key) (map fst (secrets s)) =
         map fst (filter (\<lambda>p. dict_getitem (heap s ! snd p) key \<noteq> None) (secrets s))"
proof -
  have "\<And>p. p \<in> set (secrets s) \<Longrightarrow>
          has_key s key (fst p) = (dict_getitem (heap s ! snd p) key \<noteq> None)"
  proof -
    fix p assume "p \<in> set (secrets s)"
    then have "dict_getitem (secrets s) (fst p) = Some (snd p)"
      using assms dict_getitem_distinct[of "secrets s" "fst p" "snd p"] by simp
    then show "has_key s key (fst p) = (dict_getitem (heap s ! snd p) key \<noteq> None)"
      by (simp add: has_key_def bundle_of_def)
  qed
  then show ?thesis
    by (simp add: filter_map comp_def cong: filter_cong)
qed

lemma wf_keys_distinct: "wf s \<Longrightarrow> distinct (map fst (secrets s))"
  by (simp add: wf_def key_order_distinct)


lemma winner_None:
  assumes "wf s" and "winner s key = None"
  shows "chain_getitem (heap s) (combined s) key = None"
proof (cases "secrets s = []")
  case True
  then have "list_all (\<lambda>a. heap s ! a = []) (combined s)"
    using assms(1) by (simp add: wf_def list_all_iff)
  then show ?thesis
    by (simp add: chain_getitem_None_iff list_all_iff dict_getitem_def)
next
  case False
  let ?ps = "filter (\<lambda>p. dict_getitem (heap s ! snd p) key \<noteq> None) (secrets s)"
  have d: "distinct (map fst (secrets s))" using assms(1) by (rule wf_keys_distinct)
  have ko: "key_order (secret_names s) = map fst (secrets s)"
    using assms(1) by (simp add: wf_def)
  have f: "filter (has_key s key) (key_order (secret_names s)) = map fst ?ps"
    using filter_has_key[OF d] ko by simp
  from assms(2) f have e: "?ps = []"
    by (auto simp: winner_def split: list.splits)
  have c: "combined s = rev (map snd (secrets s))" using assms(1) False by (simp add: wf_def)
  show ?thesis unfolding c chain_getitem_rev using e by (simp add: Let_def)
qed

section \<open>Lookup with a default\<close>


lemma absent_chain: "\<not> in_merged_view s key \<Longrightarrow> chain_getitem (heap s) (combined s) key = None"
  by (simp add: in_merged_view_def list_ex_iff chain_getitem_None_iff)

text \<open>
  Claim C2. For a key that no mapping of the merged view holds and a default that is not an
  instance of \<^verbatim>\<open>Null\<close> (\<^verbatim>\<open>None\<close> included), \<^verbatim>\<open>get\<close> returns the default itself,
  whatever the casting type: the default is not cast.
\<close>

theorem get_absent_returns_default:
  assumes "\<not> in_merged_view s key" and "dflt \<noteq> PNull"
  shows "get s key dflt casting_type = Inr dflt"
  using assms by (simp add: get_def absent_chain)

theorem get_absent_returns_default_witness:
  "\<not> in_merged_view demo_manager ''zz'' \<and> PNone \<noteq> PNull \<and>
   get demo_manager ''zz'' PNone IntegerShape = Inr PNone"
proof -
  have a: "\<not> in_merged_view demo_manager ''zz''" by code_simp
  have b: "PNone \<noteq> PNull" by simp
  from get_absent_returns_default[OF a b] a show ?thesis by simp
qed

text \<open>
  Claim C3. For a key that no mapping of the merged view holds, \<^verbatim>\<open>get\<close> with the default
  left as the sentinel raises the key error whose message is the \<^verbatim>\<open>repr\<close> of the key
  followed by the hint to check AWS Secrets Manager; it returns no value, so never the
  sentinel.
\<close>

theorem get_absent_raises:
  assumes "\<not> in_merged_view s key"
  shows "get s key PNull casting_type =
           Inl (KeyError (py_repr key @
                  '' not found. Please check secret value in AWS Secrets Manager.''))"
  using assms by (simp add: get_def absent_chain not_found_msg_def)

theorem get_absent_raises_witness:
  "\<not> in_merged_view demo_manager ''zz'' \<and>
   get demo_manager ''zz'' PNull IntegerShape =
     Inl (KeyError (CHR 0x27 # ''zz'' @ CHR 0x27 #
            '' not found. Please check secret value in AWS Secrets Manager.''))"
proof -
  have a: "\<not> in_merged_view demo_manager ''zz''" by code_simp
  have r: "py_repr ''zz'' = CHR 0x27 # ''zz'' @ [CHR 0x27]" by code_simp
  from get_absent_raises[OF a, of IntegerShape] a r show ?thesis by simp
qed

section \<open>Precedence\<close>





section \<open>Local writes\<close>

text \<open>
  Claim C10. For a name that was not passed at construction, \<^verbatim>\<open>set\<close> raises
  \<^verbatim>\<open>KeyError\<close> with that name and leaves the object as it was: no bundle is created, no
  bundle and no mapping of the merged view changes.
\<close>

theorem set_undeclared_raises:
  assumes "wf s" and "secret_name \<notin> set (secret_names s)"
  shows "set_secret s secret_name key v = (Some (KeyError secret_name), s)"
proof -
  have "set (map fst (secrets s)) = set (secret_names s)"
    using assms(1) by (simp add: wf_def key_order_set)
  with assms(2) have "secret_name \<notin> fst ` set (secrets s)" by simp
  then have "dict_getitem (secrets s) secret_name = None"
    by (simp add: dict_getitem_def map_of_eq_None_iff)
  then show ?thesis by (simp add: set_secret_def)
qed

theorem set_undeclared_raises_witness:
  "wf demo_manager \<and> ''other'' \<notin> set (secret_names demo_manager) \<and>
   set_secret demo_manager ''other'' ''x'' (PInt 1) = (Some (KeyError ''other''), demo_manager)"
proof -
  have w: "wf demo_manager" by code_simp
  have n: "''other'' \<notin> set (secret_names demo_manager)" by code_simp
  from set_undeclared_raises[OF w n] w n show ?thesis by simp
qed



section \<open>Fetching\<close>

lemma fetch_loop_frame:
  "fetch_loop e ns s = (r, s') \<Longrightarrow>
     secret_names s' = secret_names s \<and> secrets s' = secrets s \<and>
     combined s' = combined s \<and> length (heap s') = length (heap s)"
proof (induction ns arbitrary: s)
  case Nil
  then show ?case by simp
next
  case (Cons n ns)
  show ?case
  proof (cases "dict_getitem (secrets s) n")
    case None
    with Cons.prems show ?thesis by simp
  next
    case (Some a)
    show ?thesis
    proof (cases "get_secrets e n")
      case (Inl x)
      with Some Cons.prems show ?thesis by (auto simp: Let_def)
    next
      case (Inr kvs)
      let ?s2 = "s\<lparr>heap := (heap s)[a := dict_update ((heap s)[a := []] ! a) kvs]\<rparr>"
      have "fetch_loop e ns ?s2 = (r, s')"
        using Some Inr Cons.prems by (simp add: Let_def)
      from Cons.IH[OF this] show ?thesis by simp
    qed
  qed
qed

lemma snd_inj_distinct:
  "distinct (map snd xs) \<Longrightarrow> (k1, v) \<in> set xs \<Longrightarrow> (k2, v) \<in> set xs \<Longrightarrow> k1 = k2"
  by (induction xs) force+

lemma wf_lookup_bound:
  assumes "wf s" and "dict_getitem (secrets s) n = Some a"
  shows "a < length (heap s)"
proof -
  have "(n, a) \<in> set (secrets s)"
    using assms(2) by (auto simp: dict_getitem_def dest: map_of_SomeD)
  moreover have "\<forall>p\<in>set (secrets s). snd p < length (heap s)"
    using assms(1) by (simp add: wf_def list_all_iff)
  ultimately show ?thesis by force
qed

lemma wf_declared:
  assumes "wf s" and "n \<in> set (secret_names s)"
  shows "\<exists>a. dict_getitem (secrets s) n = Some a"
proof -
  have "set (map fst (secrets s)) = set (secret_names s)"
    using assms(1) by (simp add: wf_def key_order_set)
  with assms(2) have "n \<in> fst ` set (secrets s)" by simp
  then have "dict_getitem (secrets s) n \<noteq> None"
    by (simp add: dict_getitem_def map_of_eq_None_iff)
  then show ?thesis by blast
qed

lemma wf_heap_update:
  assumes "wf s" and "dict_getitem (secrets s) n = Some a"
  shows "wf (s\<lparr>heap := (heap s)[a := d]\<rparr>)"
proof -
  have "secrets s \<noteq> []" using assms(2) by (auto simp: dict_getitem_def)
  with assms(1) show ?thesis by (simp add: wf_def)
qed

lemma bundle_of_heap_update:
  assumes "wf s" and "dict_getitem (secrets s) n = Some a"
  shows "bundle_of (s\<lparr>heap := (heap s)[a := d]\<rparr>) m = (if m = n then Some d else bundle_of s m)"
proof (cases "m = n")
  case True
  then show ?thesis
    using assms wf_lookup_bound[OF assms] by (simp add: bundle_of_def)
next
  case False
  show ?thesis
  proof (cases "dict_getitem (secrets s) m")
    case None
    then show ?thesis using False by (simp add: bundle_of_def)
  next
    case (Some a')
    have in1: "(n, a) \<in> set (secrets s)"
      using assms(2) by (auto simp: dict_getitem_def dest: map_of_SomeD)
    have in2: "(m, a') \<in> set (secrets s)"
      using Some by (auto simp: dict_getitem_def dest: map_of_SomeD)
    have d: "distinct (map snd (secrets s))" using assms(1) by (simp add: wf_def)
    have "a' \<noteq> a" using snd_inj_distinct[OF d in2, of n] in1 False by auto
    then show ?thesis using Some False by (simp add: bundle_of_def)
  qed
qed

lemma dict_setitem_new: "k \<notin> set (map fst d) \<Longrightarrow> dict_setitem d k v = d @ [(k, v)]"
  by (induction d) auto

lemma dict_update_distinct:
  "distinct (map fst kvs) \<Longrightarrow> set (map fst d) \<inter> set (map fst kvs) = {} \<Longrightarrow>
     dict_update d kvs = d @ kvs"
proof (induction kvs arbitrary: d)
  case Nil
  then show ?case by simp
next
  case (Cons p kvs)
  obtain k v where p: "p = (k, v)" by (cases p)
  have knew: "k \<notin> set (map fst d)" using Cons.prems(2) p by auto
  then have step: "dict_setitem d k v = d @ [(k, v)]" by (rule dict_setitem_new)
  have "distinct (map fst kvs)" using Cons.prems(1) by simp
  moreover have "set (map fst (d @ [(k, v)])) \<inter> set (map fst kvs) = {}"
    using Cons.prems p by auto
  ultimately have "dict_update (d @ [(k, v)]) kvs = (d @ [(k, v)]) @ kvs" by (rule Cons.IH)
  with step p show ?case by simp
qed

lemma dict_update_empty: "distinct (map fst kvs) \<Longrightarrow> dict_update [] kvs = kvs"
  using dict_update_distinct[of kvs "[]"] by simp

lemma dict_update_None:
  "dict_getitem (dict_update d kvs) k = None \<longleftrightarrow>
     dict_getitem d k = None \<and> k \<notin> set (map fst kvs)"
proof (induction kvs arbitrary: d)
  case Nil
  then show ?case by simp
next
  case (Cons p kvs)
  obtain k' v' where p: "p = (k', v')" by (cases p)
  show ?case using Cons.IH[of "dict_setitem d k' v'"] p
    by (auto simp: dict_getitem_setitem)
qed

lemma fetch_step_ok:
  assumes "wf s" and "dict_getitem (secrets s) n = Some a" and "get_secrets e n = Inr kvs"
  shows "fetch_loop e (n # ns) s =
           fetch_loop e ns (s\<lparr>heap := (heap s)[a := dict_update [] kvs]\<rparr>)"
  using assms wf_lookup_bound[OF assms(1,2)] by (simp add: Let_def)


lemma fetch_loop_ok:
  assumes "wf s" and "set ns \<subseteq> set (secret_names s)"
    and "\<forall>n\<in>set ns. get_secrets e n = Inr (remote n)"
  shows "fst (fetch_loop e ns s) = None \<and> wf (snd (fetch_loop e ns s)) \<and>
         (\<forall>m. bundle_of (snd (fetch_loop e ns s)) m =
                (if m \<in> set ns then Some (dict_update [] (remote m)) else bundle_of s m))"
  using assms
proof (induction ns arbitrary: s)
  case Nil
  then show ?case by simp
next
  case (Cons n ns)
  from Cons.prems(2) have decl: "n \<in> set (secret_names s)" by simp
  from wf_declared[OF Cons.prems(1) decl] obtain a where
    a: "dict_getitem (secrets s) n = Some a" by blast
  have g: "get_secrets e n = Inr (remote n)" using Cons.prems(3) by simp
  let ?s2 = "s\<lparr>heap := (heap s)[a := dict_update [] (remote n)]\<rparr>"
  have step: "fetch_loop e (n # ns) s = fetch_loop e ns ?s2"
    using Cons.prems(1) a g by (rule fetch_step_ok)
  have w2: "wf ?s2" using Cons.prems(1) a by (rule wf_heap_update)
  have sub2: "set ns \<subseteq> set (secret_names ?s2)" using Cons.prems(2) by simp
  have g2: "\<forall>n\<in>set ns. get_secrets e n = Inr (remote n)" using Cons.prems(3) by simp
  note ih = Cons.IH[OF w2 sub2 g2]
  have b2: "\<And>m. bundle_of ?s2 m =
              (if m = n then Some (dict_update [] (remote n)) else bundle_of s m)"
    using Cons.prems(1) a by (rule bundle_of_heap_update)
  show ?case unfolding step using ih b2 by simp
qed


text \<open>
  Claim C6. When \<^verbatim>\<open>_get_secrets\<close> succeeds for every declared name, \<^verbatim>\<open>fetch\<close> returns
  normally and the dictionary of every declared name is exactly the dictionary decoded from
  the store; a key that the store does not hold for a name, such as one added with
  \<^verbatim>\<open>set\<close> only, is no longer in that bundle.
\<close>

theorem fetch_refreshes_all:
  assumes "wf s"
    and "\<forall>n\<in>set (secret_names s). get_secrets e n = Inr (remote n) \<and> distinct (map fst (remote n))"
  shows "fst (fetch e s) = None \<and>
         (\<forall>n\<in>set (secret_names s). bundle_of (snd (fetch e s)) n = Some (remote n)) \<and>
         (\<forall>n\<in>set (secret_names s). \<forall>k. dict_getitem (remote n) k = None \<longrightarrow>
              \<not> has_key (snd (fetch e s)) k n)"
proof -
  have g: "\<forall>n\<in>set (secret_names s). get_secrets e n = Inr (remote n)"
    using assms(2) by simp
  have sub: "set (secret_names s) \<subseteq> set (secret_names s)" by simp
  note l = fetch_loop_ok[OF assms(1) sub g]
  have b: "\<forall>n\<in>set (secret_names s). bundle_of (snd (fetch e s)) n = Some (remote n)"
    using l assms(2) by (simp add: fetch_def dict_update_empty)
  then have "\<forall>n\<in>set (secret_names s). \<forall>k. dict_getitem (remote n) k = None \<longrightarrow>
              \<not> has_key (snd (fetch e s)) k n"
    by (simp add: has_key_def)
  with l b show ?thesis by (simp add: fetch_def)
qed



section \<open>Pushing one bundle\<close>

text \<open>
  Claim C7. \<^verbatim>\<open>update(name)\<close> leaves the object unchanged; when the dictionary of the
  named bundle serialises, the one call made on the client carries that name and that
  serialisation; and the outcome and the call are the same for any object whose bundle of
  that name holds the same dictionary, whatever the other bundles and the merged view hold.
\<close>

theorem update_pushes_named_bundle:
  assumes "bundle_of s secret_name = Some b"
  shows "snd (snd (update e s secret_name)) = s \<and>
         (\<forall>payload. json_dumps e b = Inr payload \<longrightarrow>
              fst (snd (update e s secret_name)) = [UpdateSecret secret_name payload]) \<and>
         (\<forall>s2. bundle_of s2 secret_name = Some b \<longrightarrow>
              fst (update e s2 secret_name) = fst (update e s secret_name) \<and>
              fst (snd (update e s2 secret_name)) = fst (snd (update e s secret_name)))"
proof -
  from assms obtain a where a: "dict_getitem (secrets s) secret_name = Some a"
    and b: "heap s ! a = b" by (auto simp: bundle_of_def)
  have u: "update e s secret_name =
             (case json_dumps e b of
                Inl x \<Rightarrow> (Some x, [], s)
              | Inr payload \<Rightarrow>
                  (update_secret e secret_name payload, [UpdateSecret secret_name payload], s))"
    using a b by (simp add: update_def)
  have frame: "snd (snd (update e s secret_name)) = s"
    unfolding u by (simp split: sum.splits)
  have push: "\<forall>payload. json_dumps e b = Inr payload \<longrightarrow>
              fst (snd (update e s secret_name)) = [UpdateSecret secret_name payload]"
    unfolding u by simp
  have other: "\<forall>s2. bundle_of s2 secret_name = Some b \<longrightarrow>
              fst (update e s2 secret_name) = fst (update e s secret_name) \<and>
              fst (snd (update e s2 secret_name)) = fst (snd (update e s secret_name))"
  proof (intro allI impI)
    fix s2 assume "bundle_of s2 secret_name = Some b"
    then obtain a2 where a2: "dict_getitem (secrets s2) secret_name = Some a2"
      and b2: "heap s2 ! a2 = b" by (auto simp: bundle_of_def)
    have u2: "update e s2 secret_name =
             (case json_dumps e b of
                Inl x \<Rightarrow> (Some x, [], s2)
              | Inr payload \<Rightarrow>
                  (update_secret e secret_name payload, [UpdateSecret secret_name payload], s2))"
      using a2 b2 by (simp add: update_def)
    show "fst (update e s2 secret_name) = fst (update e s secret_name) \<and>
          fst (snd (update e s2 secret_name)) = fst (snd (update e s secret_name))"
      unfolding u u2 by (simp split: sum.splits)
  qed
  from frame push other show ?thesis by blast
qed

section \<open>Fetching and pushing on the examples\<close>

text \<open>
  The example object against the example store: \<^verbatim>\<open>base\<close> holds \<^verbatim>\<open>b\<close> locally only and
  loses it by the fetch.
\<close>

theorem fetch_refreshes_all_witness:
  "wf demo_manager \<and>
   secret_names demo_manager = [''base'', ''override''] \<and>
   get_secrets demo_env ''base'' = Inr [(''a'', PInt 1)] \<and>
   get_secrets demo_env ''override'' = Inr [(''b'', PInt 3)] \<and>
   fst (fetch demo_env demo_manager) = None \<and>
   bundle_of (snd (fetch demo_env demo_manager)) ''base'' = Some [(''a'', PInt 1)] \<and>
   has_key demo_manager ''b'' ''base'' \<and>
   \<not> has_key (snd (fetch demo_env demo_manager)) ''b'' ''base''"
proof -
  have w: "wf demo_manager" by code_simp
  have g: "\<forall>n\<in>set (secret_names demo_manager).
        get_secrets demo_env n = Inr (demo_remote n) \<and> distinct (map fst (demo_remote n))"
    by code_simp
  have n: "''base'' \<in> set (secret_names demo_manager)" by code_simp
  have r: "demo_remote ''base'' = [(''a'', PInt 1)]" by code_simp
  have k: "dict_getitem (demo_remote ''base'') ''b'' = None" by code_simp
  have h: "has_key demo_manager ''b'' ''base''" by code_simp
  have sn: "secret_names demo_manager = [''base'', ''override'']" by code_simp
  have g1: "get_secrets demo_env ''base'' = Inr [(''a'', PInt 1)]" by code_simp
  have g2: "get_secrets demo_env ''override'' = Inr [(''b'', PInt 3)]" by code_simp
  note t = fetch_refreshes_all[OF w g]
  from t have f: "fst (fetch demo_env demo_manager) = None" by (elim conjE)
  from t n r have b: "bundle_of (snd (fetch demo_env demo_manager)) ''base'' = Some [(''a'', PInt 1)]"
    by auto
  from t n k have l: "\<not> has_key (snd (fetch demo_env demo_manager)) ''b'' ''base''"
    by blast
  from w sn g1 g2 f b h l show ?thesis by (intro conjI)
qed




theorem update_pushes_named_bundle_witness:
  "bundle_of demo_manager ''base'' = Some [(''a'', PInt 1), (''b'', PInt 2)] \<and>
   json_dumps demo_env [(''a'', PInt 1), (''b'', PInt 2)] = Inr demo_payload \<and>
   update demo_env demo_manager ''base'' = (None, [UpdateSecret ''base'' demo_payload], demo_manager) \<and>
   bundle_of (snd (set_secret demo_manager ''override'' ''zz'' PNone)) ''base'' =
     Some [(''a'', PInt 1), (''b'', PInt 2)] \<and>
   fst (snd (update demo_env (snd (set_secret demo_manager ''override'' ''zz'' PNone)) ''base''))
     = [UpdateSecret ''base'' demo_payload]"
proof -
  have b: "bundle_of demo_manager ''base'' = Some [(''a'', PInt 1), (''b'', PInt 2)]"
    by code_simp
  have p: "json_dumps demo_env [(''a'', PInt 1), (''b'', PInt 2)] = Inr demo_payload"
    by code_simp
  have b2: "bundle_of (snd (set_secret demo_manager ''override'' ''zz'' PNone)) ''base'' =
     Some [(''a'', PInt 1), (''b'', PInt 2)]" by code_simp
  have f: "fst (update demo_env demo_manager ''base'') = None" by code_simp
  note t = update_pushes_named_bundle[OF b, of demo_env]
  from t p have c: "fst (snd (update demo_env demo_manager ''base'')) =
      [UpdateSecret ''base'' demo_payload]" by blast
  from t have s: "snd (snd (update demo_env demo_manager ''base'')) = demo_manager" by blast
  from t b2 have c2: "fst (snd (update demo_env
      (snd (set_secret demo_manager ''override'' ''zz'' PNone)) ''base'')) =
      fst (snd (update demo_env demo_manager ''base''))" by blast
  have "update demo_env demo_manager ''base'' =
         (None, [UpdateSecret ''base'' demo_payload], demo_manager)"
    using f c s by (simp add: prod_eq_iff)
  with b p b2 c c2 show ?thesis by simp
qed

section \<open>Casting of text\<close>

lemma cast_bool_text_cases:
  "cast_bool_text s =
     (if map to_lower s \<in> {''true'', ''1'', ''yes''} then Inr (PBool True)
      else if map to_lower s \<in> {''false'', ''0'', ''no''} then Inr (PBool False)
      else Inl CastError)"
  unfolding cast_bool_text_def Let_def by (simp only: insert_iff empty_iff simp_thms)

lemma false_words_not_true:
  "(t :: string) \<in> {''false'', ''0'', ''no''} \<Longrightarrow> t \<notin> {''true'', ''1'', ''yes''}"
  by auto

lemma unrecognised_split:
  "(t :: string) \<notin> {''true'', ''1'', ''yes'', ''false'', ''0'', ''no''} \<Longrightarrow>
     t \<notin> {''true'', ''1'', ''yes''} \<and> t \<notin> {''false'', ''0'', ''no''}"
  by auto

text \<open>
  Claim C9. On the casting function as the specification describes it: the four examples
  (\<^verbatim>\<open>"true"\<close> and \<^verbatim>\<open>"0"\<close> to boolean, \<^verbatim>\<open>"42"\<close> to integer, \<^verbatim>\<open>"3.14"\<close> to
  floating-point); any text that is \<^verbatim>\<open>true\<close>, \<^verbatim>\<open>1\<close> or \<^verbatim>\<open>yes\<close> up to the case of
  its letters casts to \<^verbatim>\<open>True\<close>, any that is \<^verbatim>\<open>false\<close>, \<^verbatim>\<open>0\<close> or \<^verbatim>\<open>no\<close> to
  \<^verbatim>\<open>False\<close>, and every other text raises \<^verbatim>\<open>CastError\<close>.
\<close>

theorem cast_text_semantics:
  "cast (PStr ''true'') BooleanShape = Inr (PBool True) \<and>
   cast (PStr ''0'') BooleanShape = Inr (PBool False) \<and>
   cast (PStr ''42'') IntegerShape = Inr (PInt 42) \<and>
   cast (PStr ''3.14'') FloatShape = Inr (PFloat 3.14) \<and>
   (\<forall>s. map to_lower s \<in> {''true'', ''1'', ''yes''} \<longrightarrow>
        cast (PStr s) BooleanShape = Inr (PBool True)) \<and>
   (\<forall>s. map to_lower s \<in> {''false'', ''0'', ''no''} \<longrightarrow>
        cast (PStr s) BooleanShape = Inr (PBool False)) \<and>
   (\<forall>s. map to_lower s \<notin> {''true'', ''1'', ''yes'', ''false'', ''0'', ''no''} \<longrightarrow>
        cast (PStr s) BooleanShape = Inl CastError)"
proof -
  have e1: "cast (PStr ''true'') BooleanShape = Inr (PBool True)"
    by (simp add: cast_bool_text_def to_lower_def)
  have e2: "cast (PStr ''0'') BooleanShape = Inr (PBool False)"
    by (simp add: cast_bool_text_def to_lower_def)
  have e3: "cast (PStr ''42'') IntegerShape = Inr (PInt 42)"
    by (simp add: parse_int_def parse_nat_def digit_val_def)
  have e4: "cast (PStr ''3.14'') FloatShape = Inr (PFloat 3.14)"
    by (simp add: parse_decimal_def parse_unsigned_decimal_def parse_nat_def digit_val_def)
  have t: "\<forall>s. map to_lower s \<in> {''true'', ''1'', ''yes''} \<longrightarrow>
        cast (PStr s) BooleanShape = Inr (PBool True)"
  proof (intro allI impI)
    fix s assume a: "map to_lower s \<in> {''true'', ''1'', ''yes''}"
    show "cast (PStr s) BooleanShape = Inr (PBool True)"
      unfolding cast.simps cast_bool_text_cases using a by (simp only: if_True)
  qed
  have f: "\<forall>s. map to_lower s \<in> {''false'', ''0'', ''no''} \<longrightarrow>
        cast (PStr s) BooleanShape = Inr (PBool False)"
  proof (intro allI impI)
    fix s assume a: "map to_lower s \<in> {''false'', ''0'', ''no''}"
    from false_words_not_true[OF a] have b: "map to_lower s \<notin> {''true'', ''1'', ''yes''}" .
    show "cast (PStr s) BooleanShape = Inr (PBool False)"
      unfolding cast.simps cast_bool_text_cases using a b by (simp only: if_True if_False)
  qed
  have u: "\<forall>s. map to_lower s \<notin> {''true'', ''1'', ''yes'', ''false'', ''0'', ''no''} \<longrightarrow>
        cast (PStr s) BooleanShape = Inl CastError"
  proof (intro allI impI)
    fix s assume a: "map to_lower s \<notin> {''true'', ''1'', ''yes'', ''false'', ''0'', ''no''}"
    note b = unrecognised_split[OF a, THEN conjunct1]
    note c = unrecognised_split[OF a, THEN conjunct2]
    show "cast (PStr s) BooleanShape = Inl CastError"
      unfolding cast.simps cast_bool_text_cases using b c by (simp only: if_False)
  qed
  from e1 e2 e3 e4 t f u show ?thesis by (intro conjI)
qed

theorem cast_text_semantics_witness:
  "map to_lower ''YES'' \<in> {''true'', ''1'', ''yes''} \<and>
   cast (PStr ''YES'') BooleanShape = Inr (PBool True) \<and>
   map to_lower ''False'' \<in> {''false'', ''0'', ''no''} \<and>
   cast (PStr ''False'') BooleanShape = Inr (PBool False) \<and>
   map to_lower ''maybe'' \<notin> {''true'', ''1'', ''yes'', ''false'', ''0'', ''no''} \<and>
   cast (PStr ''maybe'') BooleanShape = Inl CastError"
proof -
  have a: "map to_lower ''YES'' \<in> {''true'', ''1'', ''yes''}" by code_simp
  have b: "map to_lower ''False'' \<in> {''false'', ''0'', ''no''}" by code_simp
  have c: "map to_lower ''maybe'' \<notin> {''true'', ''1'', ''yes'', ''false'', ''0'', ''no''}"
    by code_simp
  note t = cast_text_semantics
  from t have t1: "\<forall>s. map to_lower s \<in> {''true'', ''1'', ''yes''} \<longrightarrow>
        cast (PStr s) BooleanShape = Inr (PBool True)" by (elim conjE)
  from t have t2: "\<forall>s. map to_lower s \<in> {''false'', ''0'', ''no''} \<longrightarrow>
        cast (PStr s) BooleanShape = Inr (PBool False)" by (elim conjE)
  from t have t3: "\<forall>s. map to_lower s \<notin> {''true'', ''1'', ''yes'', ''false'', ''0'', ''no''} \<longrightarrow>
        cast (PStr s) BooleanShape = Inl CastError" by (elim conjE)
  note r1 = t1[rule_format, OF a]
  note r2 = t2[rule_format, OF b]
  note r3 = t3[rule_format, OF c]
  from a r1 b r2 c r3 show ?thesis by (intro conjI)
qed

end
